theory Spec2Isabelle
  imports Complex_Main
begin

section \<open>The Yahtzee notebook: data and random sources\<close>

text \<open>
  The notebook \<^verbatim>\<open>yahtzee.ipynb\<close> rolls dice with \<^verbatim>\<open>np.random.randint\<close> and breaks
  ties with \<^verbatim>\<open>random.choice\<close>. Both generators are global state in Python; here they
  are one explicit value that every function takes and returns. A generator is an
  arbitrary infinite stream of raw numbers together with the position of the next
  unread one, so a statement about every \<open>rng\<close> is a statement about every sequence of
  draws. Dice faces are the integral floats \<open>1.0 .. 6.0\<close> of the numpy array, written
  as integers.
\<close>

datatype error = ValueError | IndexError | ZeroDivisionError

record rng =
  np_draws :: "nat \<Rightarrow> int"
  np_pos :: nat
  py_draws :: "nat \<Rightarrow> nat"
  py_pos :: nat

text \<open>
  \<^verbatim>\<open>np.random.randint(low, high, size)\<close>: \<open>sz\<close> draws in the half-open range
  \<open>[low, high)\<close>; numpy raises ValueError for a negative size and for an empty range.
  Each draw is the next raw number of the stream reduced into the range, so every
  sequence of values in the range comes from some stream.
\<close>

definition randint :: "int \<Rightarrow> int \<Rightarrow> int \<Rightarrow> rng \<Rightarrow> error + (int list \<times> rng)" where
  "randint low high sz g =
     (if sz < 0 \<or> high \<le> low then Inl ValueError
      else Inr (map (\<lambda>i. low + np_draws g (np_pos g + i) mod (high - low)) [0..<nat sz],
                g\<lparr>np_pos := np_pos g + nat sz\<rparr>))"

text \<open>
  \<^verbatim>\<open>random.choice(seq)\<close>: one element of \<open>seq\<close> at a drawn index (the next raw
  number reduced below the length); IndexError on an empty sequence.
\<close>

definition choice :: "'a list \<Rightarrow> rng \<Rightarrow> error + ('a \<times> rng)" where
  "choice seq g =
     (if seq = [] then Inl IndexError
      else Inr (seq ! (py_draws g (py_pos g) mod length seq), g\<lparr>py_pos := py_pos g + 1\<rparr>))"

section \<open>Rolling and choosing what to keep\<close>

text \<open>
  \<^verbatim>\<open>
  def roll_dice(previous_roll):
      roll_size = 5 - len(previous_roll)
      new_roll = np.random.randint(1, 7, roll_size)
      return np.append(previous_roll, new_roll)
  \<close>
\<close>

definition roll_dice :: "int list \<Rightarrow> rng \<Rightarrow> error + (int list \<times> rng)" where
  "roll_dice previous_roll g =
     (let roll_size = 5 - int (length previous_roll) in
      case randint 1 7 roll_size g of
        Inl e \<Rightarrow> Inl e
      | Inr (new_roll, g') \<Rightarrow> Inr (previous_roll @ new_roll, g'))"

text \<open>
  \<^verbatim>\<open>Counter(roll_list)\<close> is a dictionary in insertion order: a value seen again has its
  count incremented in place, a new value is appended with count 1.
\<close>

fun counter_add :: "'a \<Rightarrow> ('a \<times> nat) list \<Rightarrow> ('a \<times> nat) list" where
  "counter_add x [] = [(x, 1)]"
| "counter_add x ((y, n) # c) = (if x = y then (y, n + 1) # c else (y, n) # counter_add x c)"

definition Counter :: "'a list \<Rightarrow> ('a \<times> nat) list" where
  "Counter xs = fold counter_add xs []"

text \<open>
  \<^verbatim>\<open>most_common()\<close> is \<^verbatim>\<open>sorted(self.items(), key=itemgetter(1), reverse=True)\<close>: a
  stable sort by descending count, so equal counts stay in insertion order.
\<close>

definition most_common :: "('a \<times> nat) list \<Rightarrow> ('a \<times> nat) list" where
  "most_common c = sort_key (\<lambda>die. - int (snd die)) c"

text \<open>
  \<^verbatim>\<open>
  def find_what_to_keep(roll_list):
      count = 0
      mode_list = []
      counted = Counter(roll_list).most_common()
      for die in counted:
          if die[1] >= count:
              count = die[1]
              mode_list.append(die[0])
      return mode_list, count
  \<close>
\<close>

fun find_loop :: "('a \<times> nat) list \<Rightarrow> 'a list \<Rightarrow> nat \<Rightarrow> 'a list \<times> nat" where
  "find_loop [] mode_list count = (mode_list, count)"
| "find_loop (die # counted) mode_list count =
     (if snd die \<ge> count then find_loop counted (mode_list @ [fst die]) (snd die)
      else find_loop counted mode_list count)"

definition find_what_to_keep :: "'a list \<Rightarrow> 'a list \<times> nat" where
  "find_what_to_keep roll_list = find_loop (most_common (Counter roll_list)) [] 0"

section \<open>One turn\<close>

text \<open>
  \<^verbatim>\<open>
  def play_one_round_of_yahtzee():
      previous_roll = np.array([])
      roll_count = 0
      mode_count = 0
      while roll_count < 3 and mode_count < 5:
          roll = roll_dice(previous_roll)
          to_keep = find_what_to_keep(roll)
          mode_count = to_keep[1]
          if mode_count > 1:
              keep = random.choice(to_keep[0])
              previous_roll = roll[np.where(roll == keep)]
          roll_count += 1
      if mode_count == 5:
          return 1
      else:
          return 0
  \<close>
  The local variables of the loop and the generators are the state of a turn.
\<close>

record turn_state =
  previous_roll :: "int list"
  roll_count :: nat
  mode_count :: nat
  gen :: rng

definition initial_state :: "rng \<Rightarrow> turn_state" where
  "initial_state g = \<lparr>previous_roll = [], roll_count = 0, mode_count = 0, gen = g\<rparr>"

text \<open>The selection \<^verbatim>\<open>roll[np.where(roll == keep)]\<close>.\<close>

definition keep_dice :: "int list \<Rightarrow> int \<Rightarrow> int list" where
  "keep_dice roll keep = filter (\<lambda>d. d = keep) roll"

text \<open>One execution of the loop body.\<close>

definition turn_body :: "turn_state \<Rightarrow> error + turn_state" where
  "turn_body s =
     (case roll_dice (previous_roll s) (gen s) of
        Inl e \<Rightarrow> Inl e
      | Inr (roll, g1) \<Rightarrow>
          let to_keep = find_what_to_keep roll;
              mc = snd to_keep
          in if mc > 1 then
               (case choice (fst to_keep) g1 of
                  Inl e \<Rightarrow> Inl e
                | Inr (keep, g2) \<Rightarrow>
                    Inr \<lparr>previous_roll = keep_dice roll keep, roll_count = roll_count s + 1,
                         mode_count = mc, gen = g2\<rparr>)
             else Inr \<lparr>previous_roll = previous_roll s, roll_count = roll_count s + 1,
                       mode_count = mc, gen = g1\<rparr>)"

function turn_loop :: "turn_state \<Rightarrow> error + turn_state" where
  "turn_loop s =
     (if roll_count s < 3 \<and> mode_count s < 5 then
        (case turn_body s of Inl e \<Rightarrow> Inl e | Inr s' \<Rightarrow> turn_loop s')
      else Inr s)"
  by pat_completeness auto
termination
  by (relation "measure (\<lambda>s. 3 - roll_count s)")
    (auto simp: turn_body_def Let_def split: sum.splits prod.splits if_splits)

declare turn_loop.simps [simp del]

definition play_one_round_of_yahtzee :: "rng \<Rightarrow> error + (int \<times> rng)" where
  "play_one_round_of_yahtzee g =
     (case turn_loop (initial_state g) of
        Inl e \<Rightarrow> Inl e
      | Inr s \<Rightarrow> Inr (if mode_count s = 5 then 1 else 0, gen s))"

section \<open>The Monte Carlo cells\<close>

text \<open>
  \<^verbatim>\<open>
  yahtzees = []
  for i in range(1000000):
      yahtzees.append(play_one_round_of_yahtzee())
  np.mean(yahtzees)
  \<close>
  The notebook runs this cell with the trial counts 1000 and 1000000; the count is the
  parameter \<open>n\<close> here. \<^verbatim>\<open>range(n)\<close> is empty for \<open>n \<le> 0\<close>.
\<close>

definition py_range :: "int \<Rightarrow> int list" where
  "py_range n = map int [0..<nat n]"

fun yahtzees_loop :: "int list \<Rightarrow> int list \<Rightarrow> rng \<Rightarrow> error + (int list \<times> rng)" where
  "yahtzees_loop [] yahtzees g = Inr (yahtzees, g)"
| "yahtzees_loop (i # rest) yahtzees g =
     (case play_one_round_of_yahtzee g of
        Inl e \<Rightarrow> Inl e
      | Inr (r, g') \<Rightarrow> yahtzees_loop rest (yahtzees @ [r]) g')"

text \<open>
  \<^verbatim>\<open>np.mean\<close> of a list of integers: the sum over the length. A float64 result is
  written as the exact quotient it rounds; the mean of an empty list is NaN (numpy
  warns and raises nothing).
\<close>

datatype np_float = Num rat | NaN

definition np_mean :: "int list \<Rightarrow> np_float" where
  "np_mean xs = (if xs = [] then NaN else Num (of_int (sum_list xs) / of_nat (length xs)))"

definition estimate :: "int \<Rightarrow> rng \<Rightarrow> error + (np_float \<times> rng)" where
  "estimate n g =
     (case yahtzees_loop (py_range n) [] g of
        Inl e \<Rightarrow> Inl e
      | Inr (yahtzees, g') \<Rightarrow> Inr (np_mean yahtzees, g'))"

text \<open>
  The last cell is the expression \<^verbatim>\<open>1 / 0.046\<close>, with the estimate typed in as a
  literal. Python's division raises ZeroDivisionError on a zero divisor.
\<close>

definition truediv :: "rat \<Rightarrow> rat \<Rightarrow> error + rat" where
  "truediv a b = (if b = 0 then Inl ZeroDivisionError else Inr (a / b))"

definition expected_turns :: "error + rat" where
  "expected_turns = truediv 1 (46 / 1000)"

section \<open>Notions used to state the properties\<close>

text \<open>The count stored for a value in a Counter, 0 when the value is absent.\<close>

definition tally :: "('a \<times> nat) list \<Rightarrow> 'a \<Rightarrow> nat" where
  "tally c v = (case map_of c v of None \<Rightarrow> 0 | Some n \<Rightarrow> n)"

text \<open>The states in which the loop of a turn started with generator \<open>g\<close> tests its condition.\<close>

inductive reachable :: "rng \<Rightarrow> turn_state \<Rightarrow> bool" for g :: rng where
  start: "reachable g (initial_state g)"
| step: "reachable g s \<Longrightarrow> roll_count s < 3 \<and> mode_count s < 5 \<Longrightarrow> turn_body s = Inr s'
         \<Longrightarrow> reachable g s'"

text \<open>
  What the loop maintains: the kept dice are no more than five faces between 1 and 6;
  they are empty as long as no pair was seen, and afterwards they are \<open>mode_count\<close>
  copies of one face.
\<close>

definition turn_inv :: "turn_state \<Rightarrow> bool" where
  "turn_inv s \<longleftrightarrow>
     length (previous_roll s) \<le> 5 \<and> list_all (\<lambda>d. 1 \<le> d \<and> d \<le> 6) (previous_roll s) \<and>
     mode_count s \<le> 5 \<and>
     (if mode_count s \<le> 1 then previous_roll s = []
      else previous_roll s = replicate (mode_count s) (hd (previous_roll s)))"

text \<open>The outcome of the turn played from a generator, and the generator it leaves.\<close>

definition turn_outcome :: "rng \<Rightarrow> int" where
  "turn_outcome g = (case play_one_round_of_yahtzee g of Inl e \<Rightarrow> 0 | Inr (r, g') \<Rightarrow> r)"

definition after_turn :: "rng \<Rightarrow> rng" where
  "after_turn g = (case play_one_round_of_yahtzee g of Inl e \<Rightarrow> g | Inr (r, g') \<Rightarrow> g')"

text \<open>
  Rigged generators: one whose every die shows the same face, and one whose dice
  cycle through 1, 2, 3, 4, 5, 6. Both always pick the first of tied faces.
\<close>

definition constant_source :: "int \<Rightarrow> rng" where
  "constant_source face =
     \<lparr>np_draws = (\<lambda>i. face - 1), np_pos = 0, py_draws = (\<lambda>i. 0), py_pos = 0\<rparr>"

definition cycling_source :: rng where
  "cycling_source = \<lparr>np_draws = (\<lambda>i. int i), np_pos = 0, py_draws = (\<lambda>i. 0), py_pos = 0\<rparr>"

text \<open>
  A generator whose dice repeat the hand 2, 3, 3, 2, 1 and whose tie-break always picks
  the second of the tied faces.
\<close>

definition two_pair_source :: rng where
  "two_pair_source =
     \<lparr>np_draws = (\<lambda>i. [1, 2, 2, 1, 0] ! (i mod 5)), np_pos = 0, py_draws = (\<lambda>i. 1), py_pos = 0\<rparr>"

code_pred reachable .

section \<open>Counting the faces of a hand\<close>

lemma keys_counter_add: "fst ` set (counter_add x c) = insert x (fst ` set c)"
  by (induction x c rule: counter_add.induct) auto

lemma distinct_counter_add:
  "distinct (map fst c) \<Longrightarrow> distinct (map fst (counter_add x c))"
proof (induction x c rule: counter_add.induct)
  case (1 x)
  show ?case by simp
next
  case (2 x y n c)
  then show ?case
    using keys_counter_add [of x c] by (auto simp: image_iff)
qed

lemma tally_counter_add:
  "tally (counter_add x c) v = tally c v + (if x = v then 1 else 0)"
  by (induction x c rule: counter_add.induct) (auto simp: tally_def)

lemma fold_counter_add:
  "distinct (map fst c) \<Longrightarrow>
   distinct (map fst (fold counter_add xs c)) \<and>
   fst ` set (fold counter_add xs c) = set xs \<union> fst ` set c \<and>
   (\<forall>v. tally (fold counter_add xs c) v = tally c v + count_list xs v)"
proof (induction xs arbitrary: c)
  case Nil
  then show ?case by simp
next
  case (Cons x xs)
  have d: "distinct (map fst (counter_add x c))"
    using Cons.prems by (rule distinct_counter_add)
  show ?case
    using Cons.IH [OF d] by (auto simp: keys_counter_add tally_counter_add)
qed

lemma distinct_Counter: "distinct (map fst (Counter xs))"
  using fold_counter_add [of "[]" xs] by (simp add: Counter_def)

lemma keys_Counter: "fst ` set (Counter xs) = set xs"
  using fold_counter_add [of "[]" xs] by (simp add: Counter_def)

lemma tally_Counter: "tally (Counter xs) v = count_list xs v"
  using fold_counter_add [of "[]" xs] by (simp add: Counter_def tally_def)

lemma Counter_entry: "(v, n) \<in> set (Counter xs) \<Longrightarrow> n = count_list xs v"
proof -
  assume "(v, n) \<in> set (Counter xs)"
  then have "map_of (Counter xs) v = Some n"
    using distinct_Counter [of xs] by simp
  then have "tally (Counter xs) v = n"
    by (simp add: tally_def)
  then show ?thesis
    by (simp add: tally_Counter)
qed

lemma counts_Counter: "snd ` set (Counter xs) = count_list xs ` set xs"
proof (rule set_eqI)
  fix n
  show "n \<in> snd ` set (Counter xs) \<longleftrightarrow> n \<in> count_list xs ` set xs"
  proof
    assume "n \<in> snd ` set (Counter xs)"
    then obtain v where m: "(v, n) \<in> set (Counter xs)" by auto
    then have "v \<in> set xs" using keys_Counter [of xs] by force
    with Counter_entry [OF m] show "n \<in> count_list xs ` set xs" by simp
  next
    assume "n \<in> count_list xs ` set xs"
    then obtain v where v: "v \<in> set xs" "n = count_list xs v" by auto
    then have "v \<in> fst ` set (Counter xs)" by (simp add: keys_Counter)
    then obtain k where m: "(v, k) \<in> set (Counter xs)" by auto
    with Counter_entry [OF m] v show "n \<in> snd ` set (Counter xs)" by force
  qed
qed

lemma set_most_common: "set (most_common c) = set c"
  by (simp add: most_common_def)

lemma most_common_Nil: "most_common c = [] \<longleftrightarrow> c = []"
  using set_most_common [of c] by (metis set_empty)

lemma most_common_head:
  assumes "most_common c = die # counted"
  shows "\<forall>p\<in>set counted. snd p \<le> snd die"
proof -
  have "sorted (map (\<lambda>die. - int (snd die)) (most_common c))"
    by (simp add: most_common_def)
  with assms show ?thesis by auto
qed

section \<open>The scan for the modes\<close>

text \<open>
  Once \<open>count\<close> bounds every remaining entry, the scan appends exactly the entries
  whose count equals it. After the first entry of a list sorted by descending count,
  that is the case.
\<close>

lemma find_loop_bounded:
  "\<forall>p\<in>set counted. snd p \<le> count \<Longrightarrow>
   find_loop counted mode_list count =
     (mode_list @ map fst (filter (\<lambda>p. snd p = count) counted), count)"
  by (induction counted arbitrary: mode_list) auto

lemma find_loop_head:
  assumes "\<forall>p\<in>set counted. snd p \<le> snd die"
  shows "find_loop (die # counted) [] 0 =
     (map fst (filter (\<lambda>p. snd p = snd die) (die # counted)), snd die)"
  using find_loop_bounded [OF assms, of "[fst die]"] by simp

lemma find_what_to_keep_modes:
  assumes "roll \<noteq> []"
  shows "find_what_to_keep roll =
     (map fst (filter (\<lambda>p. snd p = Max (count_list roll ` set roll)) (most_common (Counter roll))),
      Max (count_list roll ` set roll))"
proof -
  from assms have "Counter roll \<noteq> []"
    using keys_Counter [of roll] by auto
  then obtain die counted where mc: "most_common (Counter roll) = die # counted"
    by (cases "most_common (Counter roll)") (auto simp: most_common_Nil)
  have le: "\<forall>p\<in>set counted. snd p \<le> snd die"
    using mc by (rule most_common_head)
  have "snd ` set (die # counted) = count_list roll ` set roll"
    using counts_Counter [of roll] set_most_common [of "Counter roll"] mc by simp
  then have "Max (count_list roll ` set roll) = Max (snd ` set (die # counted))"
    by simp
  also have "\<dots> = snd die"
    using le by (intro Max_eqI) auto
  finally have m: "Max (count_list roll ` set roll) = snd die" .
  show ?thesis
    unfolding find_what_to_keep_def mc m using le by (rule find_loop_head)
qed

lemma find_what_to_keep_Nil: "find_what_to_keep [] = ([], 0)"
  by (simp add: find_what_to_keep_def Counter_def most_common_def)

lemma mode_list_set:
  assumes "roll \<noteq> []"
  shows "set (fst (find_what_to_keep roll)) =
     {v \<in> set roll. count_list roll v = Max (count_list roll ` set roll)}"
proof -
  let ?m = "Max (count_list roll ` set roll)"
  have "set (fst (find_what_to_keep roll)) = {v. (v, ?m) \<in> set (Counter roll)}"
    by (force simp: find_what_to_keep_modes [OF assms] set_most_common)
  also have "\<dots> = {v \<in> set roll. count_list roll v = ?m}"
  proof (rule set_eqI)
    fix v
    show "v \<in> {v. (v, ?m) \<in> set (Counter roll)} \<longleftrightarrow> v \<in> {v \<in> set roll. count_list roll v = ?m}"
    proof
      assume "v \<in> {v. (v, ?m) \<in> set (Counter roll)}"
      then have e: "(v, ?m) \<in> set (Counter roll)" by simp
      then have "v \<in> set roll" using keys_Counter [of roll] by force
      with Counter_entry [OF e] show "v \<in> {v \<in> set roll. count_list roll v = ?m}" by simp
    next
      assume "v \<in> {v \<in> set roll. count_list roll v = ?m}"
      then have v: "v \<in> set roll" "count_list roll v = ?m" by auto
      then have "v \<in> fst ` set (Counter roll)" by (simp add: keys_Counter)
      then obtain k where e: "(v, k) \<in> set (Counter roll)" by auto
      with Counter_entry [OF e] v show "v \<in> {v. (v, ?m) \<in> set (Counter roll)}" by simp
    qed
  qed
  finally show ?thesis .
qed

lemma distinct_most_common:
  "distinct (map fst c) \<Longrightarrow> distinct (map fst (most_common c))"
  by (simp add: distinct_map most_common_def)

lemma mode_list_distinct: "distinct (fst (find_what_to_keep roll))"
proof (cases "roll = []")
  case True
  then show ?thesis by (simp add: find_what_to_keep_Nil)
next
  case False
  have "distinct (map fst (most_common (Counter roll)))"
    using distinct_Counter by (rule distinct_most_common)
  then show ?thesis
    by (simp add: find_what_to_keep_modes [OF False] distinct_map_filter)
qed

lemma max_count_bounds:
  assumes "roll \<noteq> []"
  shows "count_list roll v \<le> Max (count_list roll ` set roll)"
    and "1 \<le> Max (count_list roll ` set roll)"
    and "Max (count_list roll ` set roll) \<le> length roll"
    and "\<exists>w\<in>set roll. count_list roll w = Max (count_list roll ` set roll)"
proof -
  let ?S = "count_list roll ` set roll"
  have fin: "finite ?S" and ne: "?S \<noteq> {}"
    using assms by auto
  show "count_list roll v \<le> Max ?S"
  proof (cases "v \<in> set roll")
    case True
    then show ?thesis using fin by (intro Max_ge) auto
  next
    case False
    then show ?thesis by (simp add: count_list_0_iff)
  qed
  have "Max ?S \<in> ?S"
    using fin ne by (rule Max_in)
  then obtain w where w: "w \<in> set roll" "Max ?S = count_list roll w"
    by auto
  then show "\<exists>w\<in>set roll. count_list roll w = Max ?S"
    by auto
  from w(1) have "0 < count_list roll w"
    using count_list_0_iff [of roll w] by simp
  with w show "1 \<le> Max ?S"
    by simp
  from w show "Max ?S \<le> length roll"
    by (simp add: count_le_length)
qed

text \<open>
  C3. For a hand of five dice with faces between 1 and 6, the count returned by
  \<open>find_what_to_keep\<close> is the greatest frequency of a face in the hand, and the
  returned list holds exactly the faces of that frequency, each of them once.
\<close>

theorem find_what_to_keep_is_mode:
  assumes "length roll = 5" and "\<forall>d\<in>set roll. 1 \<le> d \<and> d \<le> (6::int)"
  shows "snd (find_what_to_keep roll) = Max (count_list roll ` set roll) \<and>
         set (fst (find_what_to_keep roll)) =
           {v \<in> set roll. count_list roll v = Max (count_list roll ` set roll)} \<and>
         distinct (fst (find_what_to_keep roll))"
proof -
  from assms(1) have ne: "roll \<noteq> []" by auto
  show ?thesis
    using find_what_to_keep_modes [OF ne] mode_list_set [OF ne] mode_list_distinct [of roll]
    by simp
qed

theorem find_what_to_keep_is_mode_witness:
  "length [3, 2, 3, 2, 1::int] = 5 \<and>
   snd (find_what_to_keep [3, 2, 3, 2, 1::int]) = 2 \<and>
   set (fst (find_what_to_keep [3, 2, 3, 2, 1::int])) = {3, 2} \<and>
   distinct (fst (find_what_to_keep [3, 2, 3, 2, 1::int]))"
proof -
  have h1: "length [3, 2, 3, 2, 1::int] = 5" by simp
  have h2: "\<forall>d\<in>set [3, 2, 3, 2, 1::int]. 1 \<le> d \<and> d \<le> 6" by simp
  have m: "Max (count_list [3, 2, 3, 2, 1::int] ` set [3, 2, 3, 2, 1]) = 2" by simp
  have e: "{v \<in> set [3, 2, 3, 2, 1::int]. count_list [3, 2, 3, 2, 1] v = 2} = {3, 2}" by auto
  from find_what_to_keep_is_mode [OF h1 h2] show ?thesis
    unfolding m e using h1 h2 by blast
qed

text \<open>
  C8 says that for some hand the returned list holds a face whose frequency is below
  the greatest one. No hand does that: \<open>most_common\<close> puts a face of greatest frequency
  first, so the running count is already the maximum when the second entry is read.
\<close>

theorem no_lower_face_in_mode_list:
  "\<not> (\<exists>(roll::int list) v. v \<in> set (fst (find_what_to_keep roll)) \<and>
        count_list roll v < Max (count_list roll ` set roll))"
proof
  assume "\<exists>(roll::int list) v. v \<in> set (fst (find_what_to_keep roll)) \<and>
        count_list roll v < Max (count_list roll ` set roll)"
  then obtain roll :: "int list" and v where
    v: "v \<in> set (fst (find_what_to_keep roll))"
    and lt: "count_list roll v < Max (count_list roll ` set roll)"
    by blast
  from v have ne: "roll \<noteq> []"
    by (auto simp: find_what_to_keep_Nil)
  from v mode_list_set [OF ne] have "count_list roll v = Max (count_list roll ` set roll)"
    by simp
  with lt show False by simp
qed

text \<open>
  C8, as the code has it: every face in the list returned by \<open>find_what_to_keep\<close> occurs
  in the hand exactly as often as the returned count, and no face occurs more often.
\<close>

theorem mode_list_faces_attain_count:
  "v \<in> set (fst (find_what_to_keep roll)) \<Longrightarrow>
   count_list roll v = snd (find_what_to_keep roll) \<and>
   (\<forall>w. count_list roll w \<le> count_list roll v)"
proof -
  assume v: "v \<in> set (fst (find_what_to_keep roll))"
  then have ne: "roll \<noteq> []"
    by (auto simp: find_what_to_keep_Nil)
  from v mode_list_set [OF ne] have "count_list roll v = Max (count_list roll ` set roll)"
    by simp
  then show ?thesis
    using find_what_to_keep_modes [OF ne] max_count_bounds(1) [OF ne] by simp
qed

theorem mode_list_faces_attain_count_witness:
  "(2::int) \<in> set (fst (find_what_to_keep [1, 2, 2, 1, 3::int])) \<and>
   count_list [1, 2, 2, 1, 3::int] 2 = snd (find_what_to_keep [1, 2, 2, 1, 3::int]) \<and>
   (\<forall>w. count_list [1, 2, 2, 1, 3::int] w \<le> count_list [1, 2, 2, 1, 3::int] 2)"
proof -
  have h: "(2::int) \<in> set (fst (find_what_to_keep [1, 2, 2, 1, 3::int]))"
    by (simp add: find_what_to_keep_def Counter_def most_common_def)
  from mode_list_faces_attain_count [OF h] h show ?thesis by blast
qed

section \<open>Rolling, choosing and keeping\<close>

lemma randint_dice:
  assumes "0 \<le> sz"
  shows "\<exists>new. randint 1 7 sz g = Inr (new, g\<lparr>np_pos := np_pos g + nat sz\<rparr>) \<and>
           length new = nat sz \<and> list_all (\<lambda>d. 1 \<le> d \<and> d \<le> 6) new"
proof -
  have "1 \<le> 1 + x mod 6 \<and> 1 + x mod 6 \<le> 6" for x :: int
  proof -
    have "0 \<le> x mod 6" and "x mod 6 < 6" by simp_all
    then show ?thesis by arith
  qed
  then show ?thesis
    using assms by (simp add: randint_def list_all_iff)
qed

lemma roll_dice_total:
  assumes "length prev \<le> 5"
  shows "\<exists>new. roll_dice prev g = Inr (prev @ new, g\<lparr>np_pos := np_pos g + (5 - length prev)\<rparr>) \<and>
           length new = 5 - length prev \<and> list_all (\<lambda>d. 1 \<le> d \<and> d \<le> 6) new"
proof -
  from assms have sz: "0 \<le> 5 - int (length prev)" by simp
  from assms have n: "nat (5 - int (length prev)) = 5 - length prev" by simp
  from randint_dice [OF sz, of g] show ?thesis
    unfolding n by (auto simp: roll_dice_def Let_def)
qed

lemma roll_dice_result:
  assumes "roll_dice prev g = Inr (roll, g1)"
  shows "length prev \<le> 5" and "length roll = 5" and "take (length prev) roll = prev"
    and "g1 = g\<lparr>np_pos := np_pos g + (5 - length prev)\<rparr>"
  using assms
  by (auto simp: roll_dice_def randint_def Let_def split: if_splits)

lemma count_list_replicate_same: "count_list (replicate n k) k = n"
  by (induction n) simp_all

lemma keep_dice_replicate: "keep_dice roll keep = replicate (count_list roll keep) keep"
  by (induction roll) (auto simp: keep_dice_def)

lemma choice_total:
  assumes "seq \<noteq> []"
  shows "\<exists>keep. choice seq g = Inr (keep, g\<lparr>py_pos := py_pos g + 1\<rparr>) \<and> keep \<in> set seq"
  using assms by (simp add: choice_def)

lemma mode_list_nonempty:
  assumes "roll \<noteq> []"
  shows "fst (find_what_to_keep roll) \<noteq> []"
proof -
  from max_count_bounds(4) [OF assms] mode_list_set [OF assms]
  have "set (fst (find_what_to_keep roll)) \<noteq> {}" by auto
  then show ?thesis by auto
qed

lemma mode_list_member:
  assumes "k \<in> set (fst (find_what_to_keep roll))"
  shows "k \<in> set roll" and "count_list roll k = snd (find_what_to_keep roll)"
proof -
  from assms have ne: "roll \<noteq> []"
    by (auto simp: find_what_to_keep_Nil)
  from assms mode_list_set [OF ne] show "k \<in> set roll" by simp
  from assms mode_list_set [OF ne] find_what_to_keep_modes [OF ne]
  show "count_list roll k = snd (find_what_to_keep roll)" by simp
qed

lemma mode_count_bounds:
  assumes "roll \<noteq> []"
  shows "count_list roll v \<le> snd (find_what_to_keep roll)"
    and "1 \<le> snd (find_what_to_keep roll)"
    and "snd (find_what_to_keep roll) \<le> length roll"
  using max_count_bounds(1-3) [OF assms] find_what_to_keep_modes [OF assms] by simp_all

section \<open>The loop body\<close>

lemma turn_body_keep:
  assumes "roll_dice (previous_roll s) (gen s) = Inr (roll, g1)"
    and "1 < snd (find_what_to_keep roll)"
    and "choice (fst (find_what_to_keep roll)) g1 = Inr (keep, g2)"
  shows "turn_body s = Inr \<lparr>previous_roll = keep_dice roll keep, roll_count = roll_count s + 1,
           mode_count = snd (find_what_to_keep roll), gen = g2\<rparr>"
  using assms by (simp add: turn_body_def Let_def)

lemma turn_body_no_keep:
  assumes "roll_dice (previous_roll s) (gen s) = Inr (roll, g1)"
    and "\<not> 1 < snd (find_what_to_keep roll)"
  shows "turn_body s = Inr \<lparr>previous_roll = previous_roll s, roll_count = roll_count s + 1,
           mode_count = snd (find_what_to_keep roll), gen = g1\<rparr>"
  using assms by (simp add: turn_body_def Let_def)

lemma turn_inv_initial: "turn_inv (initial_state g)"
  by (simp add: turn_inv_def initial_state_def)

lemma turn_body_inv:
  assumes inv: "turn_inv s"
  shows "\<exists>s'. turn_body s = Inr s' \<and> turn_inv s' \<and> mode_count s \<le> mode_count s' \<and>
           roll_count s' = roll_count s + 1 \<and> 1 \<le> mode_count s'"
proof -
  let ?face = "\<lambda>d::int. 1 \<le> d \<and> d \<le> 6"
  from inv have len: "length (previous_roll s) \<le> 5" and faces: "list_all ?face (previous_roll s)"
    by (simp_all add: turn_inv_def)
  from roll_dice_total [OF len, of "gen s"] obtain new g1 where
    rd: "roll_dice (previous_roll s) (gen s) = Inr (previous_roll s @ new, g1)"
    and new: "length new = 5 - length (previous_roll s)" "list_all ?face new"
    by blast
  define roll where "roll = previous_roll s @ new"
  define m where "m = snd (find_what_to_keep roll)"
  have rlen: "length roll = 5"
    using len new by (simp add: roll_def)
  then have ne: "roll \<noteq> []" by auto
  have rfaces: "list_all ?face roll"
    using faces new by (simp add: roll_def)
  have m1: "1 \<le> m" and m5: "m \<le> 5"
    using mode_count_bounds(2,3) [OF ne] rlen by (simp_all add: m_def)
  have mono: "mode_count s \<le> m"
  proof (cases "mode_count s \<le> 1")
    case True
    with m1 show ?thesis by simp
  next
    case False
    with inv have "previous_roll s = replicate (mode_count s) (hd (previous_roll s))"
      by (simp add: turn_inv_def)
    then have "count_list (previous_roll s) (hd (previous_roll s)) = mode_count s"
      by (metis count_list_replicate_same)
    then have "mode_count s \<le> count_list roll (hd (previous_roll s))"
      by (simp add: roll_def)
    also have "\<dots> \<le> m"
      unfolding m_def using ne by (rule mode_count_bounds(1))
    finally show ?thesis .
  qed
  show ?thesis
  proof (cases "1 < m")
    case True
    from choice_total [OF mode_list_nonempty [OF ne], of g1] obtain keep g2 where
      ch: "choice (fst (find_what_to_keep roll)) g1 = Inr (keep, g2)"
      and keep: "keep \<in> set (fst (find_what_to_keep roll))"
      by blast
    let ?s' = "\<lparr>previous_roll = keep_dice roll keep, roll_count = roll_count s + 1,
           mode_count = m, gen = g2\<rparr>"
    have tb: "turn_body s = Inr ?s'"
      unfolding m_def using rd True ch by (intro turn_body_keep) (simp_all add: roll_def m_def)
    have kd: "keep_dice roll keep = replicate m keep"
      using mode_list_member(2) [OF keep] by (simp add: keep_dice_replicate m_def)
    have "?face keep"
      using mode_list_member(1) [OF keep] rfaces by (simp add: list_all_iff)
    then have "turn_inv ?s'"
      using True m5 by (simp add: turn_inv_def kd list_all_iff)
    with tb mono m1 show ?thesis by simp
  next
    case False
    let ?s' = "\<lparr>previous_roll = previous_roll s, roll_count = roll_count s + 1,
           mode_count = m, gen = g1\<rparr>"
    have tb: "turn_body s = Inr ?s'"
      unfolding m_def using rd False by (intro turn_body_no_keep) (simp_all add: roll_def m_def)
    from False mono have "mode_count s \<le> 1" by simp
    with inv have "previous_roll s = []"
      by (simp add: turn_inv_def)
    then have "turn_inv ?s'"
      using False m5 by (simp add: turn_inv_def)
    with tb mono m1 show ?thesis by simp
  qed
qed

lemma reachable_inv: "reachable g s \<Longrightarrow> turn_inv s"
proof (induction rule: reachable.induct)
  case start
  show ?case by (rule turn_inv_initial)
next
  case (step s s')
  from turn_body_inv [OF step.IH] step.hyps(3) show ?case by simp
qed

section \<open>The loop\<close>

lemma turn_loop_exit: "\<not> (roll_count s < 3 \<and> mode_count s < 5) \<Longrightarrow> turn_loop s = Inr s"
  by (subst turn_loop.simps) auto

lemma turn_loop_step:
  "roll_count s < 3 \<Longrightarrow> mode_count s < 5 \<Longrightarrow> turn_body s = Inr s' \<Longrightarrow> turn_loop s = turn_loop s'"
  by (subst turn_loop.simps) simp

lemma turn_body_mode_count:
  assumes "turn_body p = Inr s" and "roll_dice (previous_roll p) (gen p) = Inr (roll, g1)"
  shows "mode_count s = snd (find_what_to_keep roll)"
  using assms
  by (auto simp: turn_body_def Let_def split: if_splits sum.splits prod.splits)

lemma turn_loop_unrolled:
  "\<exists>s1. turn_body (initial_state g) = Inr s1 \<and> roll_count s1 = 1 \<and> turn_inv s1 \<and>
     (if mode_count s1 = 5 then turn_loop (initial_state g) = Inr s1
      else \<exists>s2. turn_body s1 = Inr s2 \<and> roll_count s2 = 2 \<and> turn_inv s2 \<and>
        (if mode_count s2 = 5 then turn_loop (initial_state g) = Inr s2
         else \<exists>s3. turn_body s2 = Inr s3 \<and> roll_count s3 = 3 \<and> turn_inv s3 \<and>
                turn_loop (initial_state g) = Inr s3))"
proof -
  let ?s0 = "initial_state g"
  have c0: "roll_count ?s0 = 0" "mode_count ?s0 = 0"
    by (simp_all add: initial_state_def)
  from turn_body_inv [OF turn_inv_initial, of g] obtain s1 where
    b1: "turn_body ?s0 = Inr s1" and i1: "turn_inv s1" and r1: "roll_count s1 = 1"
    by (auto simp: c0)
  have l1: "turn_loop ?s0 = turn_loop s1"
    using b1 by (intro turn_loop_step) (simp_all add: c0)
  from i1 have m1: "mode_count s1 \<le> 5"
    by (simp add: turn_inv_def)
  show ?thesis
  proof (cases "mode_count s1 = 5")
    case True
    then have "turn_loop s1 = Inr s1"
      by (intro turn_loop_exit) simp
    with b1 i1 r1 l1 True show ?thesis by auto
  next
    case n1: False
    from turn_body_inv [OF i1] obtain s2 where
      b2: "turn_body s1 = Inr s2" and i2: "turn_inv s2" and r2: "roll_count s2 = 2"
      by (auto simp: r1)
    have l2: "turn_loop s1 = turn_loop s2"
      using b2 n1 m1 by (intro turn_loop_step) (simp_all add: r1)
    from i2 have m2: "mode_count s2 \<le> 5"
      by (simp add: turn_inv_def)
    show ?thesis
    proof (cases "mode_count s2 = 5")
      case True
      then have "turn_loop s2 = Inr s2"
        by (intro turn_loop_exit) simp
      with b1 i1 r1 l1 n1 b2 i2 r2 l2 True show ?thesis by auto
    next
      case n2: False
      from turn_body_inv [OF i2] obtain s3 where
        b3: "turn_body s2 = Inr s3" and i3: "turn_inv s3" and r3: "roll_count s3 = 3"
        by (auto simp: r2)
      have l3: "turn_loop s2 = turn_loop s3"
        using b3 n2 m2 by (intro turn_loop_step) (simp_all add: r2)
      have "turn_loop s3 = Inr s3"
        by (intro turn_loop_exit) (simp add: r3)
      with b1 i1 r1 l1 n1 b2 i2 r2 l2 n2 b3 i3 r3 l3 show ?thesis by auto
    qed
  qed
qed

lemma turn_loop_last:
  "\<exists>p s. reachable g p \<and> roll_count p < 3 \<and> mode_count p < 5 \<and> turn_body p = Inr s \<and>
     turn_loop (initial_state g) = Inr s \<and> turn_inv s \<and>
     roll_count s = roll_count p + 1 \<and> (roll_count s = 3 \<or> mode_count s = 5)"
proof -
  let ?s0 = "initial_state g"
  have c0: "roll_count ?s0 = 0" "mode_count ?s0 = 0"
    by (simp_all add: initial_state_def)
  have r0: "reachable g ?s0" by (rule reachable.start)
  from turn_loop_unrolled [of g] obtain s1 where
    b1: "turn_body ?s0 = Inr s1" and r1: "roll_count s1 = 1" and i1: "turn_inv s1"
    and rest1: "if mode_count s1 = 5 then turn_loop ?s0 = Inr s1
      else \<exists>s2. turn_body s1 = Inr s2 \<and> roll_count s2 = 2 \<and> turn_inv s2 \<and>
        (if mode_count s2 = 5 then turn_loop ?s0 = Inr s2
         else \<exists>s3. turn_body s2 = Inr s3 \<and> roll_count s3 = 3 \<and> turn_inv s3 \<and>
                turn_loop ?s0 = Inr s3)"
    by blast
  from i1 have m1: "mode_count s1 \<le> 5" by (simp add: turn_inv_def)
  show ?thesis
  proof (cases "mode_count s1 = 5")
    case True
    with rest1 have "turn_loop ?s0 = Inr s1" by simp
    with r0 b1 r1 i1 True c0 show ?thesis
      by (intro exI [of _ ?s0] exI [of _ s1]) simp
  next
    case n1: False
    have g1: "roll_count s1 < 3 \<and> mode_count s1 < 5"
      using n1 m1 r1 by simp
    have re1: "reachable g s1"
      using r0 _ b1 by (rule reachable.step) (simp add: c0)
    from n1 rest1 obtain s2 where
      b2: "turn_body s1 = Inr s2" and r2: "roll_count s2 = 2" and i2: "turn_inv s2"
      and rest2: "if mode_count s2 = 5 then turn_loop ?s0 = Inr s2
         else \<exists>s3. turn_body s2 = Inr s3 \<and> roll_count s3 = 3 \<and> turn_inv s3 \<and>
                turn_loop ?s0 = Inr s3"
      by auto
    from i2 have m2: "mode_count s2 \<le> 5" by (simp add: turn_inv_def)
    show ?thesis
    proof (cases "mode_count s2 = 5")
      case True
      with rest2 have "turn_loop ?s0 = Inr s2" by simp
      with re1 g1 b2 r2 r1 i2 True show ?thesis
        by (intro exI [of _ s1] exI [of _ s2]) simp
    next
      case n2: False
      have g2: "roll_count s2 < 3 \<and> mode_count s2 < 5"
        using n2 m2 r2 by simp
      have re2: "reachable g s2"
        using re1 g1 b2 by (rule reachable.step)
      from n2 rest2 obtain s3 where
        b3: "turn_body s2 = Inr s3" and r3: "roll_count s3 = 3" and i3: "turn_inv s3"
        and l3: "turn_loop ?s0 = Inr s3"
        by auto
      with re2 g2 r2 show ?thesis
        by (intro exI [of _ s2] exI [of _ s3]) simp
    qed
  qed
qed

text \<open>The equations that evaluate a turn on a given generator.\<close>

lemmas turn_eval =
  play_one_round_of_yahtzee_def initial_state_def turn_body_def roll_dice_def randint_def
  find_what_to_keep_def Counter_def most_common_def choice_def keep_dice_def Let_def
  upt_conv_Cons turn_loop.simps

text \<open>
  C1. A turn always returns. The loop ends in a state \<open>s\<close> produced by a last execution
  of the body; its \<open>mode_count\<close> is the greatest frequency of a face in the last hand
  rolled, and the turn returns 1 exactly when that count is 5 and 0 exactly when it is
  not.
\<close>

theorem play_returns_one_iff_five_of_a_kind:
  "\<exists>p s roll g1.
     reachable g p \<and> roll_dice (previous_roll p) (gen p) = Inr (roll, g1) \<and>
     turn_body p = Inr s \<and> mode_count s = Max (count_list roll ` set roll) \<and>
     turn_loop (initial_state g) = Inr s \<and>
     (\<exists>r. play_one_round_of_yahtzee g = Inr (r, gen s) \<and>
        (r = 1 \<longleftrightarrow> mode_count s = 5) \<and> (r = 0 \<longleftrightarrow> mode_count s \<noteq> 5))"
proof -
  from turn_loop_last [of g] obtain p s where
    re: "reachable g p" and tb: "turn_body p = Inr s" and tl: "turn_loop (initial_state g) = Inr s"
    by blast
  from reachable_inv [OF re] have "length (previous_roll p) \<le> 5"
    by (simp add: turn_inv_def)
  from roll_dice_total [OF this, of "gen p"] obtain roll g1 where
    rd: "roll_dice (previous_roll p) (gen p) = Inr (roll, g1)"
    by blast
  from roll_dice_result(2) [OF rd] have ne: "roll \<noteq> []" by auto
  have mc: "mode_count s = Max (count_list roll ` set roll)"
    using turn_body_mode_count [OF tb rd] find_what_to_keep_modes [OF ne] by simp
  have "play_one_round_of_yahtzee g = Inr (if mode_count s = 5 then 1 else 0, gen s)"
    by (simp add: play_one_round_of_yahtzee_def tl)
  then have "\<exists>r. play_one_round_of_yahtzee g = Inr (r, gen s) \<and>
        (r = 1 \<longleftrightarrow> mode_count s = 5) \<and> (r = 0 \<longleftrightarrow> mode_count s \<noteq> 5)"
    by simp
  with re rd tb mc tl show ?thesis by blast
qed

theorem play_returns_one_iff_five_of_a_kind_witness:
  "play_one_round_of_yahtzee (constant_source 4) =
     Inr (1, (constant_source 4)\<lparr>np_pos := 5, py_pos := 1\<rparr>) \<and>
   play_one_round_of_yahtzee cycling_source = Inr (0, cycling_source\<lparr>np_pos := 15\<rparr>)"
proof -
  have l1: "turn_loop (initial_state (constant_source 4)) =
      Inr \<lparr>previous_roll = [4, 4, 4, 4, 4], roll_count = 1, mode_count = 5,
           gen = (constant_source 4)\<lparr>np_pos := 5, py_pos := 1\<rparr>\<rparr>"
    by (simp add: constant_source_def turn_eval)
  have l2: "turn_loop (initial_state cycling_source) =
      Inr \<lparr>previous_roll = [], roll_count = 3, mode_count = 1,
           gen = cycling_source\<lparr>np_pos := 15\<rparr>\<rparr>"
    by (simp add: cycling_source_def turn_eval)
  from play_returns_one_iff_five_of_a_kind [of "constant_source 4"] l1
  have "play_one_round_of_yahtzee (constant_source 4) =
     Inr (1, (constant_source 4)\<lparr>np_pos := 5, py_pos := 1\<rparr>)"
    by auto
  moreover
  from play_returns_one_iff_five_of_a_kind [of cycling_source] l2
  have "play_one_round_of_yahtzee cycling_source = Inr (0, cycling_source\<lparr>np_pos := 15\<rparr>)"
    by auto
  ultimately show ?thesis ..
qed

text \<open>
  C2. The loop of a turn is one, two or three executions of the body, each of which
  rolls once: it ends after the first roll whose mode count is 5, and after the third
  roll otherwise.
\<close>

theorem turn_takes_at_most_three_rolls:
  "\<exists>s1. turn_body (initial_state g) = Inr s1 \<and> roll_count s1 = 1 \<and>
     (if mode_count s1 = 5 then turn_loop (initial_state g) = Inr s1
      else \<exists>s2. turn_body s1 = Inr s2 \<and> roll_count s2 = 2 \<and>
        (if mode_count s2 = 5 then turn_loop (initial_state g) = Inr s2
         else \<exists>s3. turn_body s2 = Inr s3 \<and> roll_count s3 = 3 \<and>
                turn_loop (initial_state g) = Inr s3))"
  using turn_loop_unrolled [of g] by (auto split: if_splits)

theorem turn_takes_at_most_three_rolls_witness:
  "turn_loop (initial_state (constant_source 4)) =
     Inr \<lparr>previous_roll = [4, 4, 4, 4, 4], roll_count = 1, mode_count = 5,
          gen = (constant_source 4)\<lparr>np_pos := 5, py_pos := 1\<rparr>\<rparr>"
proof -
  have b1: "turn_body (initial_state (constant_source 4)) =
      Inr \<lparr>previous_roll = [4, 4, 4, 4, 4], roll_count = 1, mode_count = 5,
           gen = (constant_source 4)\<lparr>np_pos := 5, py_pos := 1\<rparr>\<rparr>"
    by (simp add: constant_source_def initial_state_def turn_body_def roll_dice_def randint_def
      find_what_to_keep_def Counter_def most_common_def choice_def keep_dice_def Let_def
      upt_conv_Cons)
  from turn_takes_at_most_three_rolls [of "constant_source 4"] show ?thesis
    unfolding b1 by auto
qed

section \<open>The keep step\<close>

lemma two_pair_roll:
  "roll_dice (previous_roll (initial_state two_pair_source)) (gen (initial_state two_pair_source)) =
     Inr ([2, 3, 3, 2, 1], two_pair_source\<lparr>np_pos := 5\<rparr>)"
  by (simp add: two_pair_source_def initial_state_def roll_dice_def randint_def upt_conv_Cons)

lemma two_pair_modes: "find_what_to_keep [2, 3, 3, 2, 1::int] = ([2, 3], 2)"
  by (simp add: find_what_to_keep_def Counter_def most_common_def)

lemma two_pair_choice:
  "choice (fst (find_what_to_keep [2, 3, 3, 2, 1::int])) (two_pair_source\<lparr>np_pos := 5\<rparr>) =
     Inr (3, two_pair_source\<lparr>np_pos := 5, py_pos := 1\<rparr>)"
  by (simp add: two_pair_modes choice_def two_pair_source_def)

lemma two_pair_kept: "keep_dice [2, 3, 3, 2, 1] 3 = [3, 3]"
  by (simp add: keep_dice_def)

lemma two_pair_body:
  "turn_body (initial_state two_pair_source) =
     Inr \<lparr>previous_roll = [3, 3], roll_count = 1, mode_count = 2,
          gen = two_pair_source\<lparr>np_pos := 5, py_pos := 1\<rparr>\<rparr>"
  using turn_body_keep [OF two_pair_roll _ two_pair_choice]
  by (simp add: two_pair_modes two_pair_kept initial_state_def)

text \<open>
  C4. Whatever the hand and the face chosen, the dice selected by the keep step all show
  that face, and they are as many as the dice of the hand that show it. When the keep
  step fires in the loop body (the mode count of the hand rolled exceeds 1 and
  \<open>choice\<close> returned the face \<open>keep\<close>), the kept dice of the next state are that
  selection.
\<close>

theorem kept_dice_match_chosen_face:
  "(\<forall>d\<in>set (keep_dice roll keep). d = keep) \<and>
   length (keep_dice roll keep) = count_list roll keep \<and>
   (roll_dice (previous_roll s) (gen s) = Inr (roll, g1) \<and>
    1 < snd (find_what_to_keep roll) \<and>
    choice (fst (find_what_to_keep roll)) g1 = Inr (keep, g2) \<longrightarrow>
    (\<exists>s'. turn_body s = Inr s' \<and> previous_roll s' = keep_dice roll keep))"
  by (auto simp: keep_dice_replicate turn_body_keep)

theorem kept_dice_match_chosen_face_witness:
  "length (keep_dice [2, 3, 3, 2, 1] 3) = count_list [2, 3, 3, 2, 1::int] 3 \<and>
   count_list [2, 3, 3, 2, 1::int] 3 = 2 \<and>
   (\<exists>s'. turn_body (initial_state two_pair_source) = Inr s' \<and> previous_roll s' = [3, 3])"
proof -
  have one: "1 < snd (find_what_to_keep [2, 3, 3, 2, 1::int])"
    by (simp add: two_pair_modes)
  from kept_dice_match_chosen_face [of "[2, 3, 3, 2, 1]" 3 "initial_state two_pair_source"
      "two_pair_source\<lparr>np_pos := 5\<rparr>" "two_pair_source\<lparr>np_pos := 5, py_pos := 1\<rparr>"]
    two_pair_roll two_pair_choice one
  show ?thesis
    unfolding two_pair_kept by simp
qed

text \<open>
  C9. When no two dice of the hand rolled share a face (the greatest frequency is 1),
  the body leaves the kept dice as they were and draws no tie-break: only the counters
  and the dice generator change.
\<close>

theorem no_pair_keeps_nothing_new:
  assumes "roll_dice (previous_roll s) (gen s) = Inr (roll, g1)"
    and "Max (count_list roll ` set roll) = 1"
  shows "turn_body s = Inr \<lparr>previous_roll = previous_roll s, roll_count = roll_count s + 1,
           mode_count = 1, gen = g1\<rparr>"
proof -
  from roll_dice_result(2) [OF assms(1)] have ne: "roll \<noteq> []" by auto
  have "snd (find_what_to_keep roll) = 1"
    using find_what_to_keep_modes [OF ne] assms(2) by simp
  with turn_body_no_keep [OF assms(1)] show ?thesis by simp
qed

theorem no_pair_keeps_nothing_new_witness:
  "roll_dice (previous_roll (initial_state cycling_source)) (gen (initial_state cycling_source)) =
     Inr ([1, 2, 3, 4, 5], cycling_source\<lparr>np_pos := 5\<rparr>) \<and>
   Max (count_list [1, 2, 3, 4, 5::int] ` set [1, 2, 3, 4, 5]) = 1 \<and>
   turn_body (initial_state cycling_source) =
     Inr \<lparr>previous_roll = [], roll_count = 1, mode_count = 1, gen = cycling_source\<lparr>np_pos := 5\<rparr>\<rparr>"
proof -
  have rd: "roll_dice (previous_roll (initial_state cycling_source))
      (gen (initial_state cycling_source)) = Inr ([1, 2, 3, 4, 5], cycling_source\<lparr>np_pos := 5\<rparr>)"
    by (simp add: cycling_source_def initial_state_def roll_dice_def randint_def upt_conv_Cons)
  have mx: "Max (count_list [1, 2, 3, 4, 5::int] ` set [1, 2, 3, 4, 5]) = 1"
    by simp
  from no_pair_keeps_nothing_new [OF rd mx] rd mx show ?thesis
    by (simp add: initial_state_def)
qed

section \<open>The invariant of a turn\<close>

text \<open>
  C10. In every state the loop of a turn reaches, the kept dice are at most five faces
  between 1 and 6; \<open>roll_dice\<close> then returns a hand of exactly five such faces that
  starts with the kept dice, unchanged; and the body yields a next state whose mode
  count is not below the current one.
\<close>

theorem kept_dice_invariant:
  assumes "reachable g s"
  shows "length (previous_roll s) \<le> 5 \<and>
         list_all (\<lambda>d. 1 \<le> d \<and> d \<le> 6) (previous_roll s) \<and>
         (\<exists>roll g1. roll_dice (previous_roll s) (gen s) = Inr (roll, g1) \<and>
            length roll = 5 \<and> list_all (\<lambda>d. 1 \<le> d \<and> d \<le> 6) roll \<and>
            take (length (previous_roll s)) roll = previous_roll s) \<and>
         (\<exists>s'. turn_body s = Inr s' \<and> mode_count s \<le> mode_count s')"
proof -
  from reachable_inv [OF assms] have inv: "turn_inv s" .
  then have len: "length (previous_roll s) \<le> 5"
    and faces: "list_all (\<lambda>d. 1 \<le> d \<and> d \<le> 6) (previous_roll s)"
    by (simp_all add: turn_inv_def)
  from roll_dice_total [OF len, of "gen s"] obtain new g1 where
    rd: "roll_dice (previous_roll s) (gen s) = Inr (previous_roll s @ new, g1)"
    and new: "length new = 5 - length (previous_roll s)" "list_all (\<lambda>d. 1 \<le> d \<and> d \<le> 6) new"
    by blast
  have "length (previous_roll s @ new) = 5"
    using len new by simp
  moreover have "list_all (\<lambda>d. 1 \<le> d \<and> d \<le> 6) (previous_roll s @ new)"
    using faces new by simp
  moreover have "take (length (previous_roll s)) (previous_roll s @ new) = previous_roll s"
    by simp
  ultimately have hand: "\<exists>roll g1. roll_dice (previous_roll s) (gen s) = Inr (roll, g1) \<and>
            length roll = 5 \<and> list_all (\<lambda>d. 1 \<le> d \<and> d \<le> 6) roll \<and>
            take (length (previous_roll s)) roll = previous_roll s"
    using rd by blast
  from turn_body_inv [OF inv] have "\<exists>s'. turn_body s = Inr s' \<and> mode_count s \<le> mode_count s'"
    by blast
  with len faces hand show ?thesis by blast
qed

theorem kept_dice_invariant_witness:
  "reachable two_pair_source
     \<lparr>previous_roll = [3, 3], roll_count = 1, mode_count = 2,
      gen = two_pair_source\<lparr>np_pos := 5, py_pos := 1\<rparr>\<rparr> \<and>
   (\<exists>roll g1. roll_dice [3, 3] (two_pair_source\<lparr>np_pos := 5, py_pos := 1\<rparr>) = Inr (roll, g1) \<and>
      length roll = 5 \<and> take 2 roll = [3, 3]) \<and>
   (\<exists>s'. turn_body \<lparr>previous_roll = [3, 3], roll_count = 1, mode_count = 2,
            gen = two_pair_source\<lparr>np_pos := 5, py_pos := 1\<rparr>\<rparr> = Inr s' \<and> 2 \<le> mode_count s')"
proof -
  let ?s1 = "\<lparr>previous_roll = [3, 3], roll_count = 1, mode_count = 2,
      gen = two_pair_source\<lparr>np_pos := 5, py_pos := 1\<rparr>\<rparr>"
  have re: "reachable two_pair_source ?s1"
    using reachable.start _ two_pair_body by (rule reachable.step) (simp add: initial_state_def)
  have two: "length (previous_roll ?s1) = 2"
    by simp
  from kept_dice_invariant [OF re] show ?thesis
    unfolding two using re by simp blast
qed

section \<open>The Monte Carlo loop\<close>

lemma play_total:
  "play_one_round_of_yahtzee g = Inr (turn_outcome g, after_turn g) \<and>
   (turn_outcome g = 0 \<or> turn_outcome g = 1)"
proof -
  from turn_loop_last [of g] obtain s where "turn_loop (initial_state g) = Inr s"
    by blast
  then have "play_one_round_of_yahtzee g = Inr (if mode_count s = 5 then 1 else 0, gen s)"
    by (simp add: play_one_round_of_yahtzee_def)
  then show ?thesis
    by (simp add: turn_outcome_def after_turn_def)
qed

lemma yahtzees_loop_trace:
  "yahtzees_loop trials yahtzees g =
     Inr (yahtzees @ map (\<lambda>k. turn_outcome ((after_turn ^^ k) g)) [0..<length trials],
          (after_turn ^^ length trials) g)"
proof (induction trials arbitrary: yahtzees g)
  case Nil
  show ?case by simp
next
  case (Cons i rest)
  have "yahtzees_loop (i # rest) yahtzees g =
      yahtzees_loop rest (yahtzees @ [turn_outcome g]) (after_turn g)"
    using play_total [of g] by simp
  also have "\<dots> = Inr ((yahtzees @ [turn_outcome g]) @
      map (\<lambda>k. turn_outcome ((after_turn ^^ k) (after_turn g))) [0..<length rest],
      (after_turn ^^ length rest) (after_turn g))"
    by (rule Cons.IH)
  also have "\<dots> = Inr (yahtzees @
      map (\<lambda>k. turn_outcome ((after_turn ^^ k) g)) [0..<length (i # rest)],
      (after_turn ^^ length (i # rest)) g)"
    by (simp add: map_upt_Suc funpow_swap1 del: upt_Suc)
  finally show ?case .
qed

lemma length_py_range: "length (py_range n) = nat n"
  by (simp add: py_range_def)

lemma sum_list_outcomes:
  "\<forall>r\<in>set ys. r = 0 \<or> r = (1::int) \<Longrightarrow> sum_list ys = int (count_list ys 1)"
  by (induction ys) auto

lemma mean_in_unit_interval:
  assumes "ys \<noteq> []"
  shows "0 \<le> (of_nat (count_list ys (1::int)) :: rat) / of_nat (length ys)"
    and "(of_nat (count_list ys (1::int)) :: rat) / of_nat (length ys) \<le> 1"
proof -
  show "0 \<le> (of_nat (count_list ys (1::int)) :: rat) / of_nat (length ys)"
    by simp
  have "count_list ys 1 \<le> length ys"
    by (rule count_le_length)
  then have "(of_nat (count_list ys (1::int)) :: rat) \<le> of_nat (length ys)"
    by simp
  moreover have "(0::rat) < of_nat (length ys)"
    using assms by simp
  ultimately show "(of_nat (count_list ys (1::int)) :: rat) / of_nat (length ys) \<le> 1"
    by (simp add: divide_le_eq_1)
qed

text \<open>Turns played from the rigged generators.\<close>

lemma constant_turn:
  "play_one_round_of_yahtzee ((constant_source 4)\<lparr>np_pos := a, py_pos := b\<rparr>) =
     Inr (1, (constant_source 4)\<lparr>np_pos := a + 5, py_pos := b + 1\<rparr>)"
  by (simp add: constant_source_def turn_eval)

lemma cycling_turn_0:
  "play_one_round_of_yahtzee cycling_source = Inr (0, cycling_source\<lparr>np_pos := 15\<rparr>)"
  by (simp add: cycling_source_def turn_eval)

lemma cycling_turn_1:
  "play_one_round_of_yahtzee (cycling_source\<lparr>np_pos := 15\<rparr>) =
     Inr (0, cycling_source\<lparr>np_pos := 30\<rparr>)"
  by (simp add: cycling_source_def turn_eval)

lemma cycling_loop:
  "yahtzees_loop (py_range 2) [] cycling_source = Inr ([0, 0], cycling_source\<lparr>np_pos := 30\<rparr>)"
  by (simp add: py_range_def upt_conv_Cons cycling_turn_0 cycling_turn_1)

lemma constant_after_turn:
  "after_turn ((constant_source 4)\<lparr>np_pos := a, py_pos := b\<rparr>) =
     (constant_source 4)\<lparr>np_pos := a + 5, py_pos := b + 1\<rparr>"
  "turn_outcome ((constant_source 4)\<lparr>np_pos := a, py_pos := b\<rparr>) = 1"
  by (simp_all add: after_turn_def turn_outcome_def constant_turn)

lemma constant_source_start:
  "constant_source 4 = (constant_source 4)\<lparr>np_pos := 0, py_pos := 0\<rparr>"
  by (simp add: constant_source_def)

text \<open>
  C7. For a positive trial count \<open>n\<close> the loop plays exactly \<open>n\<close> turns, each from the
  generator the previous one left, and every one of them returns; the list collected
  holds their \<open>n\<close> outcomes in order. The estimate is the number of outcomes equal to 1
  divided by \<open>n\<close>, a value between 0 and 1.
\<close>

theorem estimate_runs_n_turns:
  assumes "0 < n"
  shows "\<exists>yahtzees.
     yahtzees = map (\<lambda>k. turn_outcome ((after_turn ^^ k) g)) [0..<nat n] \<and>
     length yahtzees = nat n \<and>
     (\<forall>k<nat n. play_one_round_of_yahtzee ((after_turn ^^ k) g) =
        Inr (yahtzees ! k, (after_turn ^^ Suc k) g)) \<and>
     yahtzees_loop (py_range n) [] g = Inr (yahtzees, (after_turn ^^ nat n) g) \<and>
     estimate n g =
       Inr (Num (of_nat (count_list yahtzees 1) / of_int n), (after_turn ^^ nat n) g) \<and>
     0 \<le> (of_nat (count_list yahtzees 1) :: rat) / of_int n \<and>
     (of_nat (count_list yahtzees 1) :: rat) / of_int n \<le> 1"
proof -
  define yahtzees where "yahtzees = map (\<lambda>k. turn_outcome ((after_turn ^^ k) g)) [0..<nat n]"
  have len: "length yahtzees = nat n"
    by (simp add: yahtzees_def)
  with assms have ne: "yahtzees \<noteq> []" by auto
  have n: "(of_int n :: rat) = of_nat (length yahtzees)"
    using assms len by simp
  have plays: "\<forall>k<nat n. play_one_round_of_yahtzee ((after_turn ^^ k) g) =
        Inr (yahtzees ! k, (after_turn ^^ Suc k) g)"
    using play_total by (simp add: yahtzees_def)
  have loop: "yahtzees_loop (py_range n) [] g = Inr (yahtzees, (after_turn ^^ nat n) g)"
    using yahtzees_loop_trace [of "py_range n" "[]" g]
    by (simp add: length_py_range yahtzees_def)
  have "\<forall>r\<in>set yahtzees. r = 0 \<or> r = 1"
    using play_total by (auto simp: yahtzees_def)
  then have "sum_list yahtzees = int (count_list yahtzees 1)"
    by (rule sum_list_outcomes)
  then have mean: "np_mean yahtzees = Num (of_nat (count_list yahtzees 1) / of_int n)"
    using ne by (simp add: np_mean_def n)
  have est: "estimate n g =
       Inr (Num (of_nat (count_list yahtzees 1) / of_int n), (after_turn ^^ nat n) g)"
    by (simp add: estimate_def loop mean)
  from mean_in_unit_interval [OF ne] have
    "0 \<le> (of_nat (count_list yahtzees 1) :: rat) / of_int n"
    "(of_nat (count_list yahtzees 1) :: rat) / of_int n \<le> 1"
    unfolding n by simp_all
  with yahtzees_def len plays loop est show ?thesis by blast
qed

theorem estimate_runs_n_turns_witness:
  "estimate 3 (constant_source 4) =
     Inr (Num 1, (constant_source 4)\<lparr>np_pos := 15, py_pos := 3\<rparr>)"
proof -
  have pos: "(0::int) < 3" by simp
  have g3: "(after_turn ^^ nat 3) (constant_source 4) =
      (constant_source 4)\<lparr>np_pos := 15, py_pos := 3\<rparr>"
    by (subst constant_source_start) (simp add: eval_nat_numeral constant_after_turn)
  have ys: "map (\<lambda>k. turn_outcome ((after_turn ^^ k) (constant_source 4))) [0..<nat 3] = [1, 1, 1]"
    by (subst constant_source_start) (simp add: eval_nat_numeral upt_conv_Cons constant_after_turn)
  from estimate_runs_n_turns [OF pos, of "constant_source 4"] show ?thesis
    unfolding g3 ys by simp
qed

text \<open>
  C5 asks for an UndefinedResult failure of the expected-turns computation when every
  trial fails. With the cycling generator both of two trials fail and the estimate is 0,
  yet the expected-turns cell, which divides by the literal 0.046, returns 500/23.
\<close>

theorem expected_turns_does_not_fail:
  "yahtzees_loop (py_range 2) [] cycling_source = Inr ([0, 0], cycling_source\<lparr>np_pos := 30\<rparr>) \<and>
   estimate 2 cycling_source = Inr (Num 0, cycling_source\<lparr>np_pos := 30\<rparr>) \<and>
   expected_turns \<noteq> Inl ZeroDivisionError \<and>
   expected_turns = Inr (500 / 23)"
  by (simp add: cycling_loop estimate_def np_mean_def expected_turns_def truediv_def)

text \<open>
  C5, as the code has it: when a positive number of trials all fail, the estimate is 0;
  the expected-turns cell does not read the estimate and evaluates to 500/23.
\<close>

theorem all_failures_give_zero_estimate:
  assumes "0 < n"
    and "yahtzees_loop (py_range n) [] g = Inr (yahtzees, g')"
    and "\<forall>r\<in>set yahtzees. r = 0"
  shows "estimate n g = Inr (Num 0, g') \<and> expected_turns = Inr (500 / 23)"
proof -
  from assms(2) yahtzees_loop_trace [of "py_range n" "[]" g]
  have "length yahtzees = nat n"
    by (auto simp: length_py_range)
  with assms(1) have ne: "yahtzees \<noteq> []" by auto
  from assms(3) have "sum_list yahtzees = 0"
    by (induction yahtzees) simp_all
  with ne have "np_mean yahtzees = Num 0"
    by (simp add: np_mean_def)
  then show ?thesis
    by (simp add: estimate_def assms(2) expected_turns_def truediv_def)
qed

theorem all_failures_give_zero_estimate_witness:
  "estimate 2 cycling_source = Inr (Num 0, cycling_source\<lparr>np_pos := 30\<rparr>)"
proof -
  have pos: "(0::int) < 2" by simp
  have zeros: "\<forall>r\<in>set [0, 0::int]. r = 0" by simp
  from all_failures_give_zero_estimate [OF pos cycling_loop zeros] show ?thesis ..
qed

text \<open>
  C6 asks for an InvalidArgument failure when the trial count is not positive. With the
  count 0 the cell fails with nothing: it returns NaN and leaves the generators as they
  were.
\<close>

theorem estimate_zero_does_not_fail:
  "estimate 0 cycling_source = Inr (NaN, cycling_source)"
  by (simp add: estimate_def py_range_def np_mean_def)

text \<open>
  C6, as the code has it: for a trial count that is not positive, \<^verbatim>\<open>range\<close> is empty, so
  no turn is played, the list of outcomes stays empty and the generators are untouched;
  the mean of the empty list is NaN and no error is raised.
\<close>

theorem nonpositive_count_plays_no_turn:
  "n \<le> 0 \<Longrightarrow>
   yahtzees_loop (py_range n) [] g = Inr ([], g) \<and> estimate n g = Inr (NaN, g)"
  by (simp add: estimate_def py_range_def np_mean_def)

theorem nonpositive_count_plays_no_turn_witness:
  "yahtzees_loop (py_range (- 3)) [] cycling_source = Inr ([], cycling_source) \<and>
   estimate (- 3) cycling_source = Inr (NaN, cycling_source)"
proof -
  have "(- 3::int) \<le> 0" by simp
  then show ?thesis by (rule nonpositive_count_plays_no_turn)
qed

end
